theory Spec2Isabelle
  imports Main "HOL-Library.Sublist" "HOL-Library.Multiset"
begin

section \<open>Go values shared by both packages\<close>

text \<open>
  A Go \<open>string\<close> is a sequence of bytes, here a \<open>char list\<close>. An \<open>error\<close> value is either
  made from a message (\<open>errors.New\<close>, \<open>fmt.Errorf\<close> without \<open>%w\<close>) or wraps another error
  behind a message prefix (\<open>fmt.Errorf("...: %w", err)\<close>). The \<open>nil\<close> error is \<open>None\<close> of
  \<open>error option\<close>.
\<close>

datatype error = New string | Wrapf string error

fun Error :: "error \<Rightarrow> string" where
  "Error (New msg) = msg"
| "Error (Wrapf pre e) = pre @ Error e"

text \<open>\<open>errors.Is\<close>: the target is looked for along the chain of wrapped errors.\<close>

fun errors_Is :: "error \<Rightarrow> error \<Rightarrow> bool" where
  "errors_Is (New msg) target = (New msg = target)"
| "errors_Is (Wrapf pre e) target = (Wrapf pre e = target \<or> errors_Is e target)"

section \<open>Package \<open>common\<close>: constants\<close>

definition Everest :: string where
  "Everest = ''everest''"

definition SystemNamespace :: string where
  "SystemNamespace = ''everest-system''"

definition MonitoringNamespace :: string where
  "MonitoringNamespace = ''everest-monitoring''"

definition KubernetesManagedByLabel :: string where
  "KubernetesManagedByLabel = ''app.kubernetes.io/managed-by''"

section \<open>Standard library: \<open>strings.Split\<close>, \<open>strings.TrimSpace\<close>, \<open>regexp\<close>\<close>

text \<open>\<open>strings.Split(s, sep)\<close> for a separator of one byte: one more piece than there are
  separators, so the empty string gives one empty piece.\<close>

fun Split :: "string \<Rightarrow> char \<Rightarrow> string list" where
  "Split [] sep = [[]]"
| "Split (c # cs) sep =
     (if c = sep then [] # Split cs sep
      else (case Split cs sep of [] \<Rightarrow> [[c]] | t # ts \<Rightarrow> (c # t) # ts))"

text \<open>
  \<open>strings.TrimSpace\<close> removes the leading and the trailing white-space runes, as
  \<open>unicode.IsSpace\<close> defines them. The decoder of Go accepts only the shortest UTF-8 form
  of a code point, so a white-space rune is one of the byte sequences below: the six ASCII
  ones, U+0085, U+00A0, U+1680, U+2000 to U+200A, U+2028, U+2029, U+202F, U+205F, U+3000.
\<close>

definition space_runes :: "string list" where
  "space_runes =
     [[CHR 0x09], [CHR 0x0A], [CHR 0x0B], [CHR 0x0C], [CHR 0x0D], [CHR 0x20],
      [CHR 0xC2, CHR 0x85], [CHR 0xC2, CHR 0xA0],
      [CHR 0xE1, CHR 0x9A, CHR 0x80],
      [CHR 0xE2, CHR 0x80, CHR 0x80], [CHR 0xE2, CHR 0x80, CHR 0x81],
      [CHR 0xE2, CHR 0x80, CHR 0x82], [CHR 0xE2, CHR 0x80, CHR 0x83],
      [CHR 0xE2, CHR 0x80, CHR 0x84], [CHR 0xE2, CHR 0x80, CHR 0x85],
      [CHR 0xE2, CHR 0x80, CHR 0x86], [CHR 0xE2, CHR 0x80, CHR 0x87],
      [CHR 0xE2, CHR 0x80, CHR 0x88], [CHR 0xE2, CHR 0x80, CHR 0x89],
      [CHR 0xE2, CHR 0x80, CHR 0x8A],
      [CHR 0xE2, CHR 0x80, CHR 0xA8], [CHR 0xE2, CHR 0x80, CHR 0xA9],
      [CHR 0xE2, CHR 0x80, CHR 0xAF],
      [CHR 0xE2, CHR 0x81, CHR 0x9F],
      [CHR 0xE3, CHR 0x80, CHR 0x80]]"

text \<open>The width in bytes of the white-space rune a string starts with (ends with); 0 when
  its first (last) rune is not white space or the string is empty.\<close>

definition first_space :: "string \<Rightarrow> nat" where
  "first_space s = (case find (\<lambda>e. prefix e s) space_runes of None \<Rightarrow> 0 | Some e \<Rightarrow> length e)"

definition last_space :: "string \<Rightarrow> nat" where
  "last_space s =
     (case find (\<lambda>e. prefix (rev e) (rev s)) space_runes of None \<Rightarrow> 0 | Some e \<Rightarrow> length e)"

function TrimLeft :: "string \<Rightarrow> string" where
  "TrimLeft s = (if first_space s = 0 then s else TrimLeft (drop (first_space s) s))"
  by pat_completeness auto
termination TrimLeft
proof (relation "measure length")
  fix s :: string
  assume pos: "first_space s \<noteq> 0"
  have "first_space [] = 0"
    by (simp add: first_space_def space_runes_def)
  with pos have "s \<noteq> []" by auto
  with pos show "(drop (first_space s) s, s) \<in> measure length" by simp
qed simp

declare TrimLeft.simps [simp del]

function TrimRight :: "string \<Rightarrow> string" where
  "TrimRight s =
     (if last_space s = 0 then s else TrimRight (take (length s - last_space s) s))"
  by pat_completeness auto
termination TrimRight
proof (relation "measure length")
  fix s :: string
  assume pos: "last_space s \<noteq> 0"
  have "last_space [] = 0"
    by (simp add: last_space_def space_runes_def)
  with pos have "s \<noteq> []" by auto
  with pos show "(take (length s - last_space s) s, s) \<in> measure length" by simp
qed simp

declare TrimRight.simps [simp del]

definition TrimSpace :: "string \<Rightarrow> string" where
  "TrimSpace s = TrimRight (TrimLeft s)"

text \<open>
  A regular expression of package \<open>regexp\<close>, as far as the source uses one: a class of byte
  ranges, a sequence, \<open>r?\<close> and \<open>r{lo,hi}\<close>. The classes of the source hold ASCII only, so
  a byte of a longer rune is in none of them. \<open>rx_match r s\<close> lists what is left of \<open>s\<close>
  after each way of matching \<open>r\<close> at its start; between \<open>^\<close> and \<open>$\<close> (no flag \<open>m\<close>: \<open>$\<close>
  is the end of the text) the expression matches when nothing can be left.
\<close>

datatype regex =
    Class "(char \<times> char) list"
  | Cat regex regex
  | Opt regex
  | Rep nat nat regex

definition in_class :: "(char \<times> char) list \<Rightarrow> char \<Rightarrow> bool" where
  "in_class rs c =
     list_ex (\<lambda>(lo, hi). (of_char lo :: nat) \<le> of_char c \<and> (of_char c :: nat) \<le> of_char hi) rs"

fun rx_size :: "regex \<Rightarrow> nat" where
  "rx_size (Class rs) = 0"
| "rx_size (Cat a b) = Suc (rx_size a + rx_size b)"
| "rx_size (Opt a) = Suc (rx_size a)"
| "rx_size (Rep lo hi a) = Suc (rx_size a + hi)"

function rx_match :: "regex \<Rightarrow> string \<Rightarrow> string list" where
  "rx_match (Class rs) s =
     (case s of [] \<Rightarrow> [] | c # cs \<Rightarrow> if in_class rs c then [cs] else [])"
| "rx_match (Cat a b) s = concat (map (rx_match b) (rx_match a s))"
| "rx_match (Opt a) s = rx_match a s @ [s]"
| "rx_match (Rep lo 0 a) s = (if lo = 0 then [s] else [])"
| "rx_match (Rep lo (Suc hi) a) s =
     concat (map (rx_match (Rep (lo - 1) hi a)) (rx_match a s)) @ (if lo = 0 then [s] else [])"
  by pat_completeness auto
termination rx_match
  by (relation "measure (\<lambda>(r, s). rx_size r)") auto

definition MatchString :: "regex \<Rightarrow> string \<Rightarrow> bool" where
  "MatchString re s = ([] \<in> set (rx_match re s))"

section \<open>Package \<open>namespaces\<close>: validation of the namespace list\<close>

definition quote :: char where
  "quote = CHR 0x27"

definition ErrNSEmpty :: error where
  "ErrNSEmpty = New ''namespace list is empty. Specify at least one namespace''"

definition ErrNSReserved :: "string \<Rightarrow> error" where
  "ErrNSReserved ns =
     New (quote # ns @ quote #
          '' namespace is reserved for Everest internals. Please specify another namespace'')"

definition ErrNameNotRFC1035Compatible :: "string \<Rightarrow> error" where
  "ErrNameNotRFC1035Compatible fieldName =
     New (quote # fieldName @ quote #
          '' is not RFC 1035 compatible. The name should contain only lowercase alphanumeric characters or ''
          @ quote # ''-'' @ quote #
          '', start with an alphabetic character, end with an alphanumeric character'')"

text \<open>The expression \<^verbatim>\<open>^[a-z]([-a-z0-9]{0,61}[a-z0-9])?$\<close>.\<close>

definition rfc1035Regex :: regex where
  "rfc1035Regex =
     Cat (Class [(CHR ''a'', CHR ''z'')])
         (Opt (Cat (Rep 0 61 (Class [(CHR ''-'', CHR ''-''), (CHR ''a'', CHR ''z''), (CHR ''0'', CHR ''9'')]))
                   (Class [(CHR ''a'', CHR ''z''), (CHR ''0'', CHR ''9'')])))"

definition validateRFC1035 :: "string \<Rightarrow> error option" where
  "validateRFC1035 s =
     (if \<not> MatchString rfc1035Regex s then Some (ErrNameNotRFC1035Compatible s) else None)"

text \<open>
  The map \<open>m\<close> of \<open>ValidateNamespaces\<close> has keys only (\<open>map[string]struct{}\<close>); it is kept as
  the list of its keys, each once. Go leaves the order in which \<open>range\<close> visits a map
  unspecified, so that order is a parameter \<open>range_keys\<close> of the model: any function that
  returns the keys it is given, each once, in some order.
\<close>

definition map_put :: "string list \<Rightarrow> string \<Rightarrow> string list" where
  "map_put m k = (if k \<in> set m then m else m @ [k])"

definition map_range :: "(string list \<Rightarrow> string list) \<Rightarrow> bool" where
  "map_range range_keys = (\<forall>m. mset (range_keys m) = mset m)"

text \<open>The loop over \<open>nsList\<close>. \<open>OLMNamespace\<close> is a constant of package \<open>kubernetes\<close>, a
  parameter here.\<close>

fun validate_each :: "string \<Rightarrow> string list \<Rightarrow> string list \<Rightarrow> error + string list" where
  "validate_each OLMNamespace [] m = Inr m"
| "validate_each OLMNamespace (raw # nsList) m =
     (let ns = TrimSpace raw in
      if ns = [] then validate_each OLMNamespace nsList m
      else if ns = SystemNamespace \<or> ns = MonitoringNamespace \<or> ns = OLMNamespace
        then Inl (ErrNSReserved ns)
      else (case validateRFC1035 ns of
              Some err \<Rightarrow> Inl err
            | None \<Rightarrow> validate_each OLMNamespace nsList (map_put m ns)))"

definition ValidateNamespaces ::
  "string \<Rightarrow> (string list \<Rightarrow> string list) \<Rightarrow> string \<Rightarrow> error + string list" where
  "ValidateNamespaces OLMNamespace range_keys str =
     (case validate_each OLMNamespace (Split str (CHR '','')) [] of
        Inl err \<Rightarrow> Inl err
      | Inr m \<Rightarrow>
          (let list = range_keys m in
           if length list = 0 then Inl ErrNSEmpty else Inr list))"

section \<open>Package \<open>namespaces\<close>: provisioning\<close>

record OperatorConfig =
  PG :: bool
  PSMDB :: bool
  PXC :: bool

text \<open>\<open>ChartDir\<close> and \<open>RepoURL\<close> are the two fields of the embedded \<open>helm.CLIOptions\<close> that the
  code reads.\<close>

record NamespaceAddConfig =
  Namespaces :: string
  SkipWizard :: bool
  KubeconfigPath :: string
  DisableTelemetry :: bool
  TakeOwnership :: bool
  Operator :: OperatorConfig
  Pretty :: bool
  Update :: bool
  NamespaceList :: "string list"
  ChartDir :: string
  RepoURL :: string

record Namespace =
  Labels :: "string \<rightharpoonup> string"

record 'v Installer =
  ReleaseName :: string
  ReleaseNamespace :: string
  Values :: 'v
  CreateReleaseNamespace :: bool

record ChartOptions =
  Directory :: string
  URL :: string
  Name :: string
  Version :: string

text \<open>
  The calls that leave the process, in the order they are made: the read of a namespace
  and the two calls of the release installer. A function that returns normally gives
  \<open>Return err\<close>; \<open>Must\<close> panics on an error.
\<close>

datatype 'v event =
    GetNamespace_call string
  | Init_call "'v Installer" string ChartOptions
  | Install_call "'v Installer"

datatype result = Return "error option" | Panic error

text \<open>
  What lies outside the package: the cluster client, the helm installer and helpers of
  other packages. An answer of the cluster or of the installer may depend on every call
  made before it, so these take the list of the earlier calls. \<open>MergeVals\<close> receives the
  \<open>Values\<close> of the \<open>values.Options\<close>, the only field \<open>getValues\<close> sets.
\<close>

record 'v world =
  GetNamespace :: "'v event list \<Rightarrow> string \<Rightarrow> error + Namespace"
  IsNotFound :: "error \<Rightarrow> bool"
  MergeVals :: "string list \<Rightarrow> error + 'v"
  Join :: "string \<Rightarrow> string \<Rightarrow> string"
  EverestDBNamespaceChartName :: string
  Init :: "'v event list \<Rightarrow> 'v Installer \<Rightarrow> string \<Rightarrow> ChartOptions \<Rightarrow> error option"
  Install :: "'v event list \<Rightarrow> 'v Installer \<Rightarrow> error option"
  CheckHelmInstallation :: "error + string"
  IsDev :: "string \<Rightarrow> bool"
  SetupEverestDevChart :: "error + string"
  AskOne :: "string \<Rightarrow> error + string"

definition dbNamespaceSubChartPath :: string where
  "dbNamespaceSubChartPath = ''/charts/everest-db-namespace''"

text \<open>The verb \<open>%t\<close> of \<open>fmt.Sprintf\<close>.\<close>

definition fmt_bool :: "bool \<Rightarrow> string" where
  "fmt_bool b = (if b then ''true'' else ''false'')"

definition getValues :: "NamespaceAddConfig \<Rightarrow> string list" where
  "getValues cfg =
     [''cleanupOnUninstall=false'',
      ''pxc='' @ fmt_bool (PXC (Operator cfg)),
      ''postgresql='' @ fmt_bool (PG (Operator cfg)),
      ''psmdb='' @ fmt_bool (PSMDB (Operator cfg)),
      ''telemetry='' @ fmt_bool (\<not> DisableTelemetry cfg)]"

definition isManagedByEverest :: "Namespace \<Rightarrow> bool" where
  "isManagedByEverest ns =
     (case Labels ns KubernetesManagedByLabel of None \<Rightarrow> False | Some val \<Rightarrow> val = Everest)"

definition namespaceExists ::
  "'v world \<Rightarrow> string \<Rightarrow> 'v event list \<Rightarrow> 'v event list \<times> bool \<times> bool \<times> error option" where
  "namespaceExists w namespace h =
     (let h' = h @ [GetNamespace_call namespace] in
      case GetNamespace w h namespace of
        Inl err \<Rightarrow>
          if IsNotFound w err then (h', False, False, None)
          else (h', False, False, Some (Wrapf ''cannot check if namesapce exists: '' err))
      | Inr ns \<Rightarrow> (h', True, isManagedByEverest ns, None))"

definition provisionDBNamespace ::
  "'v world \<Rightarrow> NamespaceAddConfig \<Rightarrow> string \<Rightarrow> string \<Rightarrow> 'v event list \<Rightarrow> 'v event list \<times> result" where
  "provisionDBNamespace w cfg version namespace h =
     (case namespaceExists w namespace h of (h1, nsExists, ownedByEverest, err) \<Rightarrow>
      (case err of Some e \<Rightarrow> (h1, Return (Some e)) | None \<Rightarrow>
      (case (if Update cfg then
               (if \<not> nsExists
                  then Some (New (''namespace ('' @ namespace @ '') does not exist''))
                else if \<not> ownedByEverest
                  then Some (New (''namespace ('' @ namespace @ '') is not managed by Everest''))
                else None)
             else if nsExists \<and> \<not> TakeOwnership cfg
               then Some (New (''namespace ('' @ namespace @ '') already exists''))
             else None) of
         Some e \<Rightarrow> (h1, Return (Some e))
       | None \<Rightarrow>
        (let chartDir = (if ChartDir cfg \<noteq> [] then Join w (ChartDir cfg) dbNamespaceSubChartPath else [])
         in case MergeVals w (getValues cfg) of
              Inl e \<Rightarrow> (h1, Panic e)
            | Inr values \<Rightarrow>
               (let installer = \<lparr>ReleaseName = namespace, ReleaseNamespace = namespace,
                                  Values = values, CreateReleaseNamespace = \<not> nsExists\<rparr>;
                    opts = \<lparr>Directory = chartDir, URL = RepoURL cfg,
                             Name = EverestDBNamespaceChartName w, Version = version\<rparr>;
                    h2 = h1 @ [Init_call installer (KubeconfigPath cfg) opts]
                in case Init w h1 installer (KubeconfigPath cfg) opts of
                     Some e \<Rightarrow> (h2, Return (Some (Wrapf ''could not initialize Helm installer: '' e)))
                   | None \<Rightarrow> (h2 @ [Install_call installer], Return (Install w h2 installer)))))))"

record 'v Step =
  Desc :: string
  F :: "'v event list \<Rightarrow> 'v event list \<times> result"

definition newStepInstallNamespace ::
  "'v world \<Rightarrow> NamespaceAddConfig \<Rightarrow> string \<Rightarrow> string \<Rightarrow> 'v Step" where
  "newStepInstallNamespace w cfg version namespace =
     (let action = (if Update cfg then ''Updating'' else ''Installing'') in
      \<lparr>Desc = action @ '' namespace '' @ quote # namespace @ [quote],
       F = provisionDBNamespace w cfg version namespace\<rparr>)"

text \<open>
  Modelled from the spec: \<open>steps.RunStepsWithSpinner\<close> of package \<open>pkg/cli/steps\<close>, which is not
  among the sources. The steps run one after the other in the order given, and the first
  failure halts the remaining steps and is what the run returns.
\<close>

fun RunStepsWithSpinner :: "'v Step list \<Rightarrow> 'v event list \<Rightarrow> 'v event list \<times> result" where
  "RunStepsWithSpinner [] h = (h, Return None)"
| "RunStepsWithSpinner (step # steps) h =
     (case F step h of
        (h', Return None) \<Rightarrow> RunStepsWithSpinner steps h'
      | (h', failure) \<Rightarrow> (h', failure))"

definition Run :: "'v world \<Rightarrow> NamespaceAddConfig \<Rightarrow> 'v event list \<Rightarrow> 'v event list \<times> result" where
  "Run w cfg h =
     (case CheckHelmInstallation w of
        Inl err \<Rightarrow> (h, Return (Some err))
      | Inr ver \<Rightarrow>
         (case (if IsDev w ver \<and> ChartDir cfg = []
                then (case SetupEverestDevChart w of
                        Inl err \<Rightarrow> Inl err
                      | Inr dir \<Rightarrow> Inr (cfg\<lparr>ChartDir := dir\<rparr>))
                else Inr cfg) of
            Inl err \<Rightarrow> (h, Return (Some err))
          | Inr cfg' \<Rightarrow>
              RunStepsWithSpinner
                (map (newStepInstallNamespace w cfg' ver) (NamespaceList cfg')) h))"

definition populateNamespaces ::
  "'v world \<Rightarrow> string \<Rightarrow> (string list \<Rightarrow> string list) \<Rightarrow> bool \<Rightarrow> NamespaceAddConfig
   \<Rightarrow> error + NamespaceAddConfig" where
  "populateNamespaces w OLMNamespace range_keys wizard cfg =
     (case (if wizard \<and> \<not> SkipWizard cfg then AskOne w (Namespaces cfg) else Inr (Namespaces cfg)) of
        Inl err \<Rightarrow> Inl err
      | Inr namespaces \<Rightarrow>
         (case ValidateNamespaces OLMNamespace range_keys namespaces of
            Inl err \<Rightarrow> Inl err
          | Inr list \<Rightarrow> Inr (cfg\<lparr>NamespaceList := list\<rparr>)))"

text \<open>The namespaces whose step has started, in the order of their first call.\<close>

fun resolved :: "'v event list \<Rightarrow> string list" where
  "resolved [] = []"
| "resolved (GetNamespace_call ns # h) = ns # resolved h"
| "resolved (_ # h) = resolved h"

fun installer_calls :: "'v event list \<Rightarrow> 'v event list" where
  "installer_calls [] = []"
| "installer_calls (GetNamespace_call ns # h) = installer_calls h"
| "installer_calls (ev # h) = ev # installer_calls h"

section \<open>Package \<open>api\<close>: database cluster restores\<close>

text \<open>
  Modelled from the spec: the resource types and actions of package \<open>pkg/rbac\<close>, which is
  not among the sources: a fixed enumeration of resource types, the four actions, and an
  object name of the form \<open>namespace/name\<close>.
\<close>

datatype resource =
    ResourceDatabaseClusterCredentials
  | ResourceDatabaseClusterBackups
  | ResourceDatabaseClusterRestores

datatype action = ActionRead | ActionCreate | ActionUpdate | ActionDelete

definition ObjectName :: "string \<Rightarrow> string \<Rightarrow> string" where
  "ObjectName namespace name = namespace @ ''/'' @ name"

definition databaseClusterRestoreKind :: string where
  "databaseClusterRestoreKind = ''databaseclusterrestores''"

text \<open>The request body: \<open>Spec\<close> and \<open>DbClusterBackupName\<close> are pointers, \<open>None\<close> when nil.\<close>

record DataSource =
  DbClusterBackupName :: "string option"

record RestoreSpec =
  DataSource :: DataSource
  DbClusterName :: string

record DatabaseClusterRestore =
  Spec :: "RestoreSpec option"

text \<open>The objects of the operator's API, as far as the handlers read them. The state of a
  cluster is a string; \<open>AppStateRestoring\<close> is the one of a restore in progress.\<close>

record DatabaseCluster =
  GetName :: string
  Status :: string

definition AppStateRestoring :: string where
  "AppStateRestoring = ''restoring''"

record v1alpha1_DatabaseClusterRestore =
  GetNamespace_of :: string
  DBClusterName :: string

record 'o UnstructuredList =
  Items :: "'o list"

text \<open>
  What lies outside the two handlers: the authorizer \<open>enforce\<close> and the error it gives for a
  denial, the user of the request, its body and the validation of the body, the cluster
  client, and the decoder of an unstructured object.
\<close>

record 'o EverestServer =
  enforce :: "string \<Rightarrow> resource \<Rightarrow> action \<Rightarrow> string \<Rightarrow> error option"
  errInsufficientPermissions :: error
  GetUser :: "error + string"
  getBodyFromContext :: "error + DatabaseClusterRestore"
  validateDatabaseClusterRestore :: "string \<Rightarrow> DatabaseClusterRestore \<Rightarrow> error option"
  GetDatabaseCluster :: "string \<Rightarrow> string \<Rightarrow> error + DatabaseCluster"
  FromUnstructured :: "'o \<Rightarrow> error + v1alpha1_DatabaseClusterRestore"

text \<open>
  What a handler ends with: a JSON answer written with a status code and a message, an
  error returned to the framework, the request passed on to the cluster through
  \<open>proxyKubernetes\<close> (namespace, kind, name), or a panic on a nil pointer.
\<close>

datatype response =
    JSON nat string
  | ReturnErr error
  | proxyKubernetes string string string
  | NilPanic

definition StatusBadRequest :: nat where
  "StatusBadRequest = 400"

definition StatusInternalServerError :: nat where
  "StatusInternalServerError = 500"

definition enforceDBClusterListRestoreRBAC ::
  "'o EverestServer \<Rightarrow> string \<Rightarrow> v1alpha1_DatabaseClusterRestore \<Rightarrow> action \<Rightarrow> error option" where
  "enforceDBClusterListRestoreRBAC e user restore act =
     enforce e user ResourceDatabaseClusterRestores act
       (ObjectName (GetNamespace_of restore) (DBClusterName restore))"

text \<open>The loop of the filter that \<open>ListDatabaseClusterRestores\<close> hands to \<open>transformK8sList\<close>.\<close>

fun rbacFilter_items :: "'o EverestServer \<Rightarrow> string \<Rightarrow> 'o list \<Rightarrow> 'o list \<Rightarrow> error + 'o list" where
  "rbacFilter_items e user [] allowed = Inr allowed"
| "rbacFilter_items e user (obj # items) allowed =
     (case FromUnstructured e obj of
        Inl err \<Rightarrow> Inl err
      | Inr restore \<Rightarrow>
         (case enforceDBClusterListRestoreRBAC e user restore ActionRead of
            Some err \<Rightarrow>
              if errors_Is err (errInsufficientPermissions e)
              then rbacFilter_items e user items allowed
              else Inl err
          | None \<Rightarrow> rbacFilter_items e user items (allowed @ [obj])))"

text \<open>The filter itself: it changes the list it is given only when it returns nil.\<close>

definition rbacFilter ::
  "'o EverestServer \<Rightarrow> string \<Rightarrow> 'o UnstructuredList \<Rightarrow> 'o UnstructuredList \<times> error option" where
  "rbacFilter e user l =
     (case rbacFilter_items e user (Items l) [] of
        Inl err \<Rightarrow> (l, Some err)
      | Inr allowed \<Rightarrow> (l\<lparr>Items := allowed\<rparr>, None))"

definition enforceDBRestoreRBAC ::
  "'o EverestServer \<Rightarrow> string \<Rightarrow> string \<Rightarrow> string \<Rightarrow> string \<Rightarrow> error option" where
  "enforceDBRestoreRBAC e user namespace srcBackupName dbClusterName =
     (case enforce e user ResourceDatabaseClusterCredentials ActionRead
             (ObjectName namespace dbClusterName) of
        Some err \<Rightarrow> Some err
      | None \<Rightarrow>
         (case enforce e user ResourceDatabaseClusterBackups ActionRead
                 (ObjectName namespace srcBackupName) of
            Some err \<Rightarrow> Some err
          | None \<Rightarrow>
             (case enforce e user ResourceDatabaseClusterRestores ActionRead
                     (ObjectName namespace dbClusterName) of
                Some err \<Rightarrow> Some err
              | None \<Rightarrow> None)))"

definition restoreInProgressMessage :: string where
  "restoreInProgressMessage =
     ''Another restore process for this DB cluster is currently in progress. Wait for its completion before initiating another.''"

definition CreateDatabaseClusterRestore :: "'o EverestServer \<Rightarrow> string \<Rightarrow> response" where
  "CreateDatabaseClusterRestore e namespace =
     (case GetUser e of
        Inl err \<Rightarrow>
          JSON StatusInternalServerError (''Failed to get user from context: '' @ Error err)
      | Inr user \<Rightarrow>
     (case getBodyFromContext e of
        Inl err \<Rightarrow>
          JSON StatusBadRequest ''Could not get DatabaseClusterRestore from the request body''
      | Inr restore \<Rightarrow>
     (case validateDatabaseClusterRestore e namespace restore of
        Some err \<Rightarrow> JSON StatusBadRequest (Error err)
      | None \<Rightarrow>
     (case Spec restore of
        None \<Rightarrow> NilPanic
      | Some spec \<Rightarrow>
     (case GetDatabaseCluster e namespace (DbClusterName spec) of
        Inl err \<Rightarrow> JSON StatusInternalServerError (Error err)
      | Inr dbCluster \<Rightarrow>
         (let srcBkp = (case DbClusterBackupName (DataSource spec) of None \<Rightarrow> [] | Some b \<Rightarrow> b) in
          case enforceDBRestoreRBAC e user namespace srcBkp (GetName dbCluster) of
            Some err \<Rightarrow> ReturnErr err
          | None \<Rightarrow>
              if Status dbCluster = AppStateRestoring
              then JSON StatusBadRequest restoreInProgressMessage
              else proxyKubernetes namespace databaseClusterRestoreKind []))))))"

section \<open>Notions of the properties and examples\<close>

text \<open>An item of a list the authorizer lets through, and an item it denies.\<close>

definition permitted :: "'o EverestServer \<Rightarrow> string \<Rightarrow> 'o \<Rightarrow> bool" where
  "permitted e user obj =
     (case FromUnstructured e obj of
        Inl err \<Rightarrow> False
      | Inr restore \<Rightarrow> enforceDBClusterListRestoreRBAC e user restore ActionRead = None)"

definition denied :: "'o EverestServer \<Rightarrow> string \<Rightarrow> 'o \<Rightarrow> bool" where
  "denied e user obj =
     (case FromUnstructured e obj of
        Inl err \<Rightarrow> False
      | Inr restore \<Rightarrow>
         (case enforceDBClusterListRestoreRBAC e user restore ActionRead of
            None \<Rightarrow> False
          | Some err \<Rightarrow> errors_Is err (errInsufficientPermissions e)))"

text \<open>The release the installer is asked for once the decision is to go on.\<close>

definition release_installer :: "string \<Rightarrow> 'v \<Rightarrow> bool \<Rightarrow> 'v Installer" where
  "release_installer namespace values nsExists =
     \<lparr>ReleaseName = namespace, ReleaseNamespace = namespace, Values = values,
      CreateReleaseNamespace = \<not> nsExists\<rparr>"

text \<open>A server whose user \<open>admin\<close> may do everything, where everybody may read the restores
  of cluster \<open>db1\<close>, and whose policy store fails on cluster \<open>db3\<close>; objects are numbers, 0
  cannot be decoded.\<close>

definition example_restore :: DatabaseClusterRestore where
  "example_restore =
     \<lparr>Spec = Some \<lparr>DataSource = \<lparr>DbClusterBackupName = Some ''bkp1''\<rparr>, DbClusterName = ''db1''\<rparr>\<rparr>"

definition example_server :: "nat EverestServer" where
  "example_server =
     \<lparr>enforce = (\<lambda>user res act obj.
          if user = ''admin'' then None
          else if obj = ''ns1/db1'' \<and> res = ResourceDatabaseClusterRestores then None
          else if obj = ''ns1/db3'' then Some (New ''policy store unreachable'')
          else Some (New ''insufficient permissions'')),
      errInsufficientPermissions = New ''insufficient permissions'',
      GetUser = Inr ''admin'',
      getBodyFromContext = Inr example_restore,
      validateDatabaseClusterRestore = (\<lambda>namespace restore. None),
      GetDatabaseCluster = (\<lambda>namespace name. Inr \<lparr>GetName = name, Status = ''restoring''\<rparr>),
      FromUnstructured = (\<lambda>n. if n = 0 then Inl (New ''cannot convert'')
         else Inr \<lparr>GetNamespace_of = ''ns1'',
                   DBClusterName = (if n = 9 then ''db3'' else if even n then ''db1'' else ''db2'')\<rparr>)\<rparr>"

text \<open>A cluster without namespace \<open>db1\<close>, with a namespace \<open>db2\<close> that carries no label, and
  where every other namespace is managed by Everest; the installer always succeeds.\<close>

definition example_world :: "string list world" where
  "example_world =
     \<lparr>GetNamespace = (\<lambda>h ns.
          if ns = ''db1'' then Inl (New ''not found'')
          else if ns = ''db2'' then Inr \<lparr>Labels = Map.empty\<rparr>
          else Inr \<lparr>Labels = [KubernetesManagedByLabel \<mapsto> Everest]\<rparr>),
      IsNotFound = (\<lambda>err. err = New ''not found''),
      MergeVals = Inr,
      Join = (\<lambda>dir sub. dir @ sub),
      EverestDBNamespaceChartName = ''everest-db-namespace'',
      Init = (\<lambda>h installer kubeconfig opts. None),
      Install = (\<lambda>h installer. None),
      CheckHelmInstallation = Inr ''1.3.0'',
      IsDev = (\<lambda>ver. False),
      SetupEverestDevChart = Inl (New ''no development chart''),
      AskOne = Inr\<rparr>"

definition example_config :: NamespaceAddConfig where
  "example_config =
     \<lparr>Namespaces = ''db1,db2,db3'', SkipWizard = True, KubeconfigPath = ''kubeconfig'',
      DisableTelemetry = False, TakeOwnership = False,
      Operator = \<lparr>PG = True, PSMDB = False, PXC = True\<rparr>,
      Pretty = False, Update = False, NamespaceList = [''db1'', ''db2'', ''db3''],
      ChartDir = [], RepoURL = ''https://example.org/charts''\<rparr>"

text \<open>The rule for a DNS label in the words of the specification: lowercase alphanumeric
  characters and \<open>-\<close> only, a letter first, an alphanumeric character last, 1 to 63 long.\<close>

definition is_lower :: "char \<Rightarrow> bool" where
  "is_lower c = ((of_char (CHR ''a'') :: nat) \<le> of_char c \<and> (of_char c :: nat) \<le> of_char (CHR ''z''))"

definition is_digit :: "char \<Rightarrow> bool" where
  "is_digit c = ((of_char (CHR ''0'') :: nat) \<le> of_char c \<and> (of_char c :: nat) \<le> of_char (CHR ''9''))"

definition dns_label :: "string \<Rightarrow> bool" where
  "dns_label s =
     (1 \<le> length s \<and> length s \<le> 63
      \<and> list_all (\<lambda>c. is_lower c \<or> is_digit c \<or> c = CHR ''-'') s
      \<and> is_lower (hd s)
      \<and> (is_lower (last s) \<or> is_digit (last s)))"

text \<open>The tokens of the input that the loop of \<open>ValidateNamespaces\<close> looks at: the pieces
  between commas, trimmed, without the empty ones. A token is reserved when it is one of
  the three namespaces of the platform.\<close>

definition tokens :: "string \<Rightarrow> string list" where
  "tokens str = filter (\<lambda>ns. ns \<noteq> []) (map TrimSpace (Split str (CHR '','')))"

definition reserved :: "string \<Rightarrow> string \<Rightarrow> bool" where
  "reserved OLMNamespace ns =
     (ns = SystemNamespace \<or> ns = MonitoringNamespace \<or> ns = OLMNamespace)"

section \<open>The restore handlers\<close>

text \<open>
  C2. For every user, namespace, source backup and target cluster, the authorization of a
  restore creation succeeds exactly when all three grants hold: read on the credentials of
  the target cluster, read on the named source backup, and read on the restores keyed by
  the target cluster. In the handler, once the user, the body and the cluster are there,
  the request gets past the authorization exactly when the three grants hold; otherwise
  the handler returns the error of the authorization and nothing is passed on.
\<close>

theorem restore_rbac_conjunction:
  "((enforceDBRestoreRBAC e user namespace srcBackupName dbClusterName = None) =
      (enforce e user ResourceDatabaseClusterCredentials ActionRead (ObjectName namespace dbClusterName) = None
       \<and> enforce e user ResourceDatabaseClusterBackups ActionRead (ObjectName namespace srcBackupName) = None
       \<and> enforce e user ResourceDatabaseClusterRestores ActionRead (ObjectName namespace dbClusterName) = None))
   \<and> (GetUser e = Inr user \<and> getBodyFromContext e = Inr restore
        \<and> validateDatabaseClusterRestore e namespace restore = None
        \<and> Spec restore = Some spec
        \<and> GetDatabaseCluster e namespace (DbClusterName spec) = Inr dbCluster
        \<and> srcBkp = (case DbClusterBackupName (DataSource spec) of None \<Rightarrow> [] | Some b \<Rightarrow> b)
      \<longrightarrow>
        ((\<exists>err. CreateDatabaseClusterRestore e namespace = ReturnErr err) =
           (\<not> (enforce e user ResourceDatabaseClusterCredentials ActionRead
                   (ObjectName namespace (GetName dbCluster)) = None
               \<and> enforce e user ResourceDatabaseClusterBackups ActionRead
                   (ObjectName namespace srcBkp) = None
               \<and> enforce e user ResourceDatabaseClusterRestores ActionRead
                   (ObjectName namespace (GetName dbCluster)) = None))))"
  by (auto simp: enforceDBRestoreRBAC_def CreateDatabaseClusterRestore_def split: option.splits)

theorem restore_rbac_conjunction_witness:
  "(\<exists>err. CreateDatabaseClusterRestore (example_server\<lparr>GetUser := Inr ''bob''\<rparr>) ''ns1'' = ReturnErr err)
   \<and> enforce example_server ''bob'' ResourceDatabaseClusterRestores ActionRead (ObjectName ''ns1'' ''db1'') = None
   \<and> enforce example_server ''bob'' ResourceDatabaseClusterBackups ActionRead (ObjectName ''ns1'' ''bkp1'') \<noteq> None"
  using restore_rbac_conjunction [of "example_server\<lparr>GetUser := Inr ''bob''\<rparr>" "''bob''" "''ns1''" "''bkp1''"
      "''db1''" example_restore
      "\<lparr>DataSource = \<lparr>DbClusterBackupName = Some ''bkp1''\<rparr>, DbClusterName = ''db1''\<rparr>"
      "\<lparr>GetName = ''db1'', Status = ''restoring''\<rparr>" "''bkp1''"]
  by (simp add: example_server_def example_restore_def ObjectName_def)

text \<open>
  C3. When a restore is created against a cluster whose status is that of a restore in
  progress, the operation fails although all three authorization checks succeed: the
  handler answers with status 400 and the message of a restore in progress, and passes
  nothing on. The check comes after the authorization: when the authorization fails, the
  handler returns its error whatever the status is. The answer for a restore in progress
  is a JSON answer, of another kind than the returned error of a missing permission.
\<close>

theorem restore_in_progress_conflict:
  assumes "GetUser e = Inr user"
    and "getBodyFromContext e = Inr restore"
    and "validateDatabaseClusterRestore e namespace restore = None"
    and "Spec restore = Some spec"
    and "GetDatabaseCluster e namespace (DbClusterName spec) = Inr dbCluster"
    and "Status dbCluster = AppStateRestoring"
    and "srcBkp = (case DbClusterBackupName (DataSource spec) of None \<Rightarrow> [] | Some b \<Rightarrow> b)"
  shows "(enforceDBRestoreRBAC e user namespace srcBkp (GetName dbCluster) = None \<longrightarrow>
            CreateDatabaseClusterRestore e namespace = JSON StatusBadRequest restoreInProgressMessage)
       \<and> (\<forall>err. enforceDBRestoreRBAC e user namespace srcBkp (GetName dbCluster) = Some err \<longrightarrow>
            CreateDatabaseClusterRestore e namespace = ReturnErr err)
       \<and> (\<forall>err. JSON StatusBadRequest restoreInProgressMessage \<noteq> ReturnErr err)
       \<and> (\<forall>kind name. CreateDatabaseClusterRestore e namespace \<noteq> proxyKubernetes namespace kind name)"
  using assms by (simp add: CreateDatabaseClusterRestore_def split: option.splits)

theorem restore_in_progress_conflict_witness:
  "CreateDatabaseClusterRestore example_server ''ns1'' = JSON StatusBadRequest restoreInProgressMessage
   \<and> enforceDBRestoreRBAC example_server ''admin'' ''ns1'' ''bkp1'' ''db1'' = None
   \<and> CreateDatabaseClusterRestore (example_server\<lparr>GetUser := Inr ''bob''\<rparr>) ''ns1''
       = ReturnErr (New ''insufficient permissions'')"
  using restore_in_progress_conflict [of example_server "''admin''" example_restore "''ns1''"
      "\<lparr>DataSource = \<lparr>DbClusterBackupName = Some ''bkp1''\<rparr>, DbClusterName = ''db1''\<rparr>"
      "\<lparr>GetName = ''db1'', Status = ''restoring''\<rparr>" "''bkp1''"]
    restore_in_progress_conflict [of "example_server\<lparr>GetUser := Inr ''bob''\<rparr>" "''bob''" example_restore "''ns1''"
      "\<lparr>DataSource = \<lparr>DbClusterBackupName = Some ''bkp1''\<rparr>, DbClusterName = ''db1''\<rparr>"
      "\<lparr>GetName = ''db1'', Status = ''restoring''\<rparr>" "''bkp1''"]
  by (simp add: example_server_def example_restore_def AppStateRestoring_def
      enforceDBRestoreRBAC_def ObjectName_def)

section \<open>The filter of the list of restores\<close>

lemma rbacFilter_items_pass:
  "\<forall>x\<in>set pre. permitted e user x \<or> denied e user x \<Longrightarrow>
   rbacFilter_items e user (pre @ rest) allowed
     = rbacFilter_items e user rest (allowed @ filter (permitted e user) pre)"
proof (induction pre arbitrary: allowed)
  case Nil
  then show ?case by simp
next
  case (Cons x pre)
  then show ?case
    by (auto simp: permitted_def denied_def split: sum.splits option.splits)
qed

lemma rbacFilter_items_abort:
  "\<exists>x\<in>set items. \<not> permitted e user x \<and> \<not> denied e user x \<Longrightarrow>
   \<exists>err. rbacFilter_items e user items allowed = Inl err"
proof (induction items arbitrary: allowed)
  case Nil
  then show ?case by simp
next
  case (Cons x items)
  show ?case
  proof (cases "permitted e user x \<or> denied e user x")
    case True
    then have "rbacFilter_items e user ([x] @ items) allowed
        = rbacFilter_items e user items (allowed @ filter (permitted e user) [x])"
      by (intro rbacFilter_items_pass) simp
    moreover from True Cons.prems
    have "\<exists>x\<in>set items. \<not> permitted e user x \<and> \<not> denied e user x" by auto
    ultimately show ?thesis
      using Cons.IH [of "allowed @ filter (permitted e user) [x]"] by simp
  next
    case False
    then show ?thesis
      by (auto simp: permitted_def denied_def split: sum.splits option.splits)
  qed
qed

lemma permitted_not_denied: "permitted e user x \<Longrightarrow> \<not> denied e user x"
  by (auto simp: permitted_def denied_def split: sum.splits)

text \<open>
  C5. For a list of N items that all decode and on which the authorizer answers without an
  infrastructure error, M of them denied, the filter returns nil and leaves in the list
  exactly the items that are not denied: the denied ones are dropped without an error, the
  result has N - M items and is a subsequence of the input, so the items that stay keep
  their order.
\<close>

theorem list_filter_drops_denied:
  assumes "\<forall>obj\<in>set (Items l). permitted e user obj \<or> denied e user obj"
  shows "rbacFilter e user l = (l\<lparr>Items := filter (\<lambda>obj. \<not> denied e user obj) (Items l)\<rparr>, None)
       \<and> length (Items (fst (rbacFilter e user l)))
           = length (Items l) - length (filter (denied e user) (Items l))
       \<and> subseq (Items (fst (rbacFilter e user l))) (Items l)"
proof -
  have same: "filter (permitted e user) (Items l) = filter (\<lambda>obj. \<not> denied e user obj) (Items l)"
    using assms by (intro filter_cong refl) (auto dest: permitted_not_denied)
  have "rbacFilter_items e user (Items l @ []) [] = Inr (filter (permitted e user) (Items l))"
    using assms by (subst rbacFilter_items_pass) simp_all
  then have run: "rbacFilter e user l
      = (l\<lparr>Items := filter (\<lambda>obj. \<not> denied e user obj) (Items l)\<rparr>, None)"
    by (simp add: rbacFilter_def same)
  have len: "length (filter (\<lambda>obj. \<not> denied e user obj) (Items l))
      = length (Items l) - length (filter (denied e user) (Items l))"
    using sum_length_filter_compl [of "denied e user" "Items l"] by simp
  show ?thesis
    by (simp add: run len)
qed

theorem list_filter_drops_denied_witness:
  "rbacFilter example_server ''bob'' \<lparr>Items = [1, 2, 3, 4, 5]\<rparr> = (\<lparr>Items = [2, 4]\<rparr>, None)
   \<and> length (filter (denied example_server ''bob'') [1, 2, 3, 4, 5]) = 3"
proof -
  have pre: "\<forall>obj\<in>set (Items \<lparr>Items = [1, 2, 3, 4, 5::nat]\<rparr>).
      permitted example_server ''bob'' obj \<or> denied example_server ''bob'' obj"
    by (simp add: permitted_def denied_def example_server_def
        enforceDBClusterListRestoreRBAC_def ObjectName_def)
  show ?thesis
    using list_filter_drops_denied [OF pre]
    by (simp add: denied_def example_server_def enforceDBClusterListRestoreRBAC_def ObjectName_def)
qed

text \<open>
  C6. A list with an item that cannot be decoded makes the filter return an error and
  leave the list as it was: no partial result is stored. The same holds for an error of
  the authorization check of an item that is not the permission error. The error returned
  is the one of the first such item in the order of the list.
\<close>

theorem list_filter_aborts:
  assumes "Items l = pre @ obj # post"
    and "\<forall>x\<in>set pre. permitted e user x \<or> denied e user x"
  shows "(\<forall>err. FromUnstructured e obj = Inl err \<longrightarrow> rbacFilter e user l = (l, Some err))
       \<and> (\<forall>restore err. FromUnstructured e obj = Inr restore
             \<and> enforceDBClusterListRestoreRBAC e user restore ActionRead = Some err
             \<and> \<not> errors_Is err (errInsufficientPermissions e)
            \<longrightarrow> rbacFilter e user l = (l, Some err))
       \<and> ((\<exists>x\<in>set (Items l). \<exists>err. FromUnstructured e x = Inl err)
            \<longrightarrow> (\<exists>err. rbacFilter e user l = (l, Some err)))
       \<and> ((\<exists>x\<in>set (Items l). \<exists>restore err. FromUnstructured e x = Inr restore
             \<and> enforceDBClusterListRestoreRBAC e user restore ActionRead = Some err
             \<and> \<not> errors_Is err (errInsufficientPermissions e))
            \<longrightarrow> (\<exists>err. rbacFilter e user l = (l, Some err)))"
proof -
  have split: "rbacFilter_items e user (Items l) []
      = rbacFilter_items e user (obj # post) (filter (permitted e user) pre)"
    using assms rbacFilter_items_pass [of pre e user "obj # post" "[]"] by simp
  have first: "\<forall>err. FromUnstructured e obj = Inl err \<longrightarrow> rbacFilter e user l = (l, Some err)"
    by (simp add: rbacFilter_def split)
  have second: "\<forall>restore err. FromUnstructured e obj = Inr restore
             \<and> enforceDBClusterListRestoreRBAC e user restore ActionRead = Some err
             \<and> \<not> errors_Is err (errInsufficientPermissions e)
            \<longrightarrow> rbacFilter e user l = (l, Some err)"
    by (simp add: rbacFilter_def split)
  have any: "\<exists>x\<in>set (Items l). \<not> permitted e user x \<and> \<not> denied e user x
      \<Longrightarrow> \<exists>err. rbacFilter e user l = (l, Some err)"
    using rbacFilter_items_abort [of "Items l" e user "[]"] by (auto simp: rbacFilter_def)
  have undecodable: "\<not> permitted e user x \<and> \<not> denied e user x"
    if "FromUnstructured e x = Inl err" for x err
    using that by (simp add: permitted_def denied_def)
  have failing: "\<not> permitted e user x \<and> \<not> denied e user x"
    if "FromUnstructured e x = Inr restore"
      and "enforceDBClusterListRestoreRBAC e user restore ActionRead = Some err"
      and "\<not> errors_Is err (errInsufficientPermissions e)" for x restore err
    using that by (simp add: permitted_def denied_def)
  have third: "(\<exists>x\<in>set (Items l). \<exists>err. FromUnstructured e x = Inl err)
            \<longrightarrow> (\<exists>err. rbacFilter e user l = (l, Some err))"
    using any undecodable by blast
  have fourth: "(\<exists>x\<in>set (Items l). \<exists>restore err. FromUnstructured e x = Inr restore
             \<and> enforceDBClusterListRestoreRBAC e user restore ActionRead = Some err
             \<and> \<not> errors_Is err (errInsufficientPermissions e))
            \<longrightarrow> (\<exists>err. rbacFilter e user l = (l, Some err))"
    using any failing by blast
  show ?thesis
    using first second third fourth by blast
qed

theorem list_filter_aborts_witness:
  "rbacFilter example_server ''bob'' \<lparr>Items = [1, 2, 0, 4, 9]\<rparr>
     = (\<lparr>Items = [1, 2, 0, 4, 9]\<rparr>, Some (New ''cannot convert''))
   \<and> rbacFilter example_server ''bob'' \<lparr>Items = [1, 2, 9, 0, 4]\<rparr>
     = (\<lparr>Items = [1, 2, 9, 0, 4]\<rparr>, Some (New ''policy store unreachable''))"
proof -
  have pre: "\<forall>x\<in>set [1, 2::nat]. permitted example_server ''bob'' x \<or> denied example_server ''bob'' x"
    by (simp add: permitted_def denied_def example_server_def
        enforceDBClusterListRestoreRBAC_def ObjectName_def)
  have a: "Items \<lparr>Items = [1, 2, 0, 4, 9::nat]\<rparr> = [1, 2] @ 0 # [4, 9]" by simp
  have b: "Items \<lparr>Items = [1, 2, 9, 0, 4::nat]\<rparr> = [1, 2] @ 9 # [0, 4]" by simp
  show ?thesis
    using list_filter_aborts [OF a pre] list_filter_aborts [OF b pre]
    by (simp add: example_server_def enforceDBClusterListRestoreRBAC_def ObjectName_def)
qed

section \<open>Provisioning of a namespace\<close>

text \<open>
  C1. The decision of \<open>provisionDBNamespace\<close> follows the table of six rows. Install without
  take-ownership calls the installer when the namespace is absent and returns the conflict
  "already exists" when it is present. Install with take-ownership calls the installer in
  every state. Update returns the conflict "does not exist" when the namespace is absent,
  "is not managed by Everest" when it is present without the label, and calls the
  installer when it is present and managed. Where the installer is called, the namespace
  is created by it exactly when it was absent. In the three conflicts the only call made
  is the read of the namespace: the installer is not invoked.
\<close>

theorem provision_decision_table:
  assumes resolved: "namespaceExists w namespace h = (h1, nsExists, ownedByEverest, None)"
    and vals: "MergeVals w (getValues cfg) = Inr values"
  shows "(\<not> Update cfg \<and> \<not> TakeOwnership cfg \<and> \<not> nsExists \<longrightarrow>
            (\<exists>kube opts rest. fst (provisionDBNamespace w cfg version namespace h)
               = h1 @ Init_call (release_installer namespace values nsExists) kube opts # rest))
       \<and> (\<not> Update cfg \<and> \<not> TakeOwnership cfg \<and> nsExists \<longrightarrow>
            provisionDBNamespace w cfg version namespace h
              = (h1, Return (Some (New (''namespace ('' @ namespace @ '') already exists'')))))
       \<and> (\<not> Update cfg \<and> TakeOwnership cfg \<longrightarrow>
            (\<exists>kube opts rest. fst (provisionDBNamespace w cfg version namespace h)
               = h1 @ Init_call (release_installer namespace values nsExists) kube opts # rest))
       \<and> (Update cfg \<and> \<not> nsExists \<longrightarrow>
            provisionDBNamespace w cfg version namespace h
              = (h1, Return (Some (New (''namespace ('' @ namespace @ '') does not exist'')))))
       \<and> (Update cfg \<and> nsExists \<and> \<not> ownedByEverest \<longrightarrow>
            provisionDBNamespace w cfg version namespace h
              = (h1, Return (Some (New (''namespace ('' @ namespace @ '') is not managed by Everest'')))))
       \<and> (Update cfg \<and> nsExists \<and> ownedByEverest \<longrightarrow>
            (\<exists>kube opts rest. fst (provisionDBNamespace w cfg version namespace h)
               = h1 @ Init_call (release_installer namespace values nsExists) kube opts # rest))
       \<and> h1 = h @ [GetNamespace_call namespace]
       \<and> installer_calls h1 = installer_calls h"
proof -
  have h1: "h1 = h @ [GetNamespace_call namespace]"
    using resolved by (auto simp: namespaceExists_def Let_def split: sum.splits if_splits)
  have calls: "installer_calls (h @ [GetNamespace_call namespace]) = installer_calls h"
    by (induction h rule: installer_calls.induct) simp_all
  show ?thesis
    using resolved vals h1 calls
    by (auto simp: provisionDBNamespace_def release_installer_def Let_def split: option.splits)
qed

theorem provision_decision_table_witness:
  "provisionDBNamespace example_world (example_config\<lparr>Update := True\<rparr>) ''1.3.0'' ''db2'' []
     = ([GetNamespace_call ''db2''],
        Return (Some (New ''namespace (db2) is not managed by Everest'')))
   \<and> provisionDBNamespace example_world example_config ''1.3.0'' ''db2'' []
     = ([GetNamespace_call ''db2''], Return (Some (New ''namespace (db2) already exists'')))
   \<and> provisionDBNamespace example_world (example_config\<lparr>Update := True\<rparr>) ''1.3.0'' ''db1'' []
     = ([GetNamespace_call ''db1''], Return (Some (New ''namespace (db1) does not exist'')))
   \<and> provisionDBNamespace example_world example_config ''1.3.0'' ''db1'' []
     = ([GetNamespace_call ''db1'',
         Init_call (release_installer ''db1'' (getValues example_config) False) ''kubeconfig''
           \<lparr>Directory = [], URL = ''https://example.org/charts'',
            Name = ''everest-db-namespace'', Version = ''1.3.0''\<rparr>,
         Install_call (release_installer ''db1'' (getValues example_config) False)],
        Return None)"
proof -
  have install: "provisionDBNamespace example_world example_config ''1.3.0'' ''db1'' []
     = ([GetNamespace_call ''db1'',
         Init_call (release_installer ''db1'' (getValues example_config) False) ''kubeconfig''
           \<lparr>Directory = [], URL = ''https://example.org/charts'',
            Name = ''everest-db-namespace'', Version = ''1.3.0''\<rparr>,
         Install_call (release_installer ''db1'' (getValues example_config) False)],
        Return None)"
    by (simp add: example_config_def example_world_def provisionDBNamespace_def
        namespaceExists_def getValues_def release_installer_def Let_def)
  show ?thesis
    using provision_decision_table [of example_world "''db2''" "[]" "[GetNamespace_call ''db2'']" True False
        "example_config\<lparr>Update := True\<rparr>" "getValues example_config" "''1.3.0''"]
      provision_decision_table [of example_world "''db2''" "[]" "[GetNamespace_call ''db2'']" True False
        example_config "getValues example_config" "''1.3.0''"]
      provision_decision_table [of example_world "''db1''" "[]" "[GetNamespace_call ''db1'']" False False
        "example_config\<lparr>Update := True\<rparr>" "getValues example_config" "''1.3.0''"]
      install
    by (simp add: example_config_def example_world_def namespaceExists_def getValues_def
        isManagedByEverest_def KubernetesManagedByLabel_def)
qed

text \<open>
  C10. In update mode the outcome of \<open>provisionDBNamespace\<close>, the calls it makes included,
  does not depend on \<open>TakeOwnership\<close>: two runs on the same cluster whose configurations
  differ in that flag only give the same result.
\<close>

theorem update_ignores_take_ownership:
  assumes "Update cfg"
  shows "provisionDBNamespace w (cfg\<lparr>TakeOwnership := True\<rparr>) version namespace h
       = provisionDBNamespace w (cfg\<lparr>TakeOwnership := False\<rparr>) version namespace h"
proof -
  obtain h1 nsExists ownedByEverest err
    where r: "namespaceExists w namespace h = (h1, nsExists, ownedByEverest, err)"
    by (cases "namespaceExists w namespace h") auto
  have vals: "getValues (cfg\<lparr>TakeOwnership := t\<rparr>) = getValues cfg" for t
    by (simp add: getValues_def)
  show ?thesis
    using assms
    by (simp add: provisionDBNamespace_def r vals Let_def
        cong del: if_weak_cong option.case_cong_weak sum.case_cong_weak)
qed

theorem update_ignores_take_ownership_witness:
  "Update (example_config\<lparr>Update := True\<rparr>)
   \<and> provisionDBNamespace example_world (example_config\<lparr>Update := True, TakeOwnership := True\<rparr>)
         ''1.3.0'' ''db2'' []
       = ([GetNamespace_call ''db2''],
          Return (Some (New ''namespace (db2) is not managed by Everest'')))"
  using update_ignores_take_ownership [of "example_config\<lparr>Update := True\<rparr>" example_world
      "''1.3.0''" "''db2''" "[]"]
  by (simp add: example_config_def example_world_def provisionDBNamespace_def namespaceExists_def
      isManagedByEverest_def KubernetesManagedByLabel_def)

section \<open>Validation of the namespace list\<close>

lemma rx_match_Class:
  "set (rx_match (Class rs) s) = {r. \<exists>c. s = c # r \<and> in_class rs c}"
  by (cases s) auto

lemma rx_match_Rep_Class:
  "set (rx_match (Rep lo hi (Class rs)) s)
     = {r. \<exists>p. s = p @ r \<and> lo \<le> length p \<and> length p \<le> hi \<and> (\<forall>c\<in>set p. in_class rs c)}"
proof (induction hi arbitrary: lo s)
  case 0
  then show ?case by auto
next
  case (Suc hi)
  show ?case (is "?L = ?R")
  proof (intro set_eqI iffI)
    fix r assume "r \<in> ?L"
    then consider (stop) "lo = 0" "r = s"
      | (step) c cs where "s = c # cs" "in_class rs c" "r \<in> set (rx_match (Rep (lo - 1) hi (Class rs)) cs)"
      by (cases s) (auto split: if_splits)
    then show "r \<in> ?R"
    proof cases
      case stop
      then show ?thesis by auto
    next
      case step
      then obtain p where "cs = p @ r" "lo - 1 \<le> length p" "length p \<le> hi" "\<forall>c\<in>set p. in_class rs c"
        using Suc.IH by auto
      with step show ?thesis
        by (intro CollectI exI [of _ "c # p"]) auto
    qed
  next
    fix r assume "r \<in> ?R"
    then obtain p where p: "s = p @ r" "lo \<le> length p" "length p \<le> Suc hi" "\<forall>c\<in>set p. in_class rs c"
      by auto
    show "r \<in> ?L"
    proof (cases p)
      case Nil
      with p show ?thesis by simp
    next
      case (Cons c p')
      with p have "r \<in> set (rx_match (Rep (lo - 1) hi (Class rs)) (p' @ r))"
        by (subst Suc.IH) auto
      with p Cons show ?thesis by simp
    qed
  qed
qed

lemma in_class_lower: "in_class [(CHR ''a'', CHR ''z'')] c = is_lower c"
  by (simp add: in_class_def is_lower_def)

lemma in_class_alnum: "in_class [(CHR ''a'', CHR ''z''), (CHR ''0'', CHR ''9'')] c = (is_lower c \<or> is_digit c)"
  by (simp add: in_class_def is_lower_def is_digit_def)

lemma in_class_label:
  "in_class [(CHR ''-'', CHR ''-''), (CHR ''a'', CHR ''z''), (CHR ''0'', CHR ''9'')] c
     = (is_lower c \<or> is_digit c \<or> c = CHR ''-'')"
proof -
  have "((of_char (CHR ''-'') :: nat) \<le> of_char c \<and> (of_char c :: nat) \<le> of_char (CHR ''-'')) = (c = CHR ''-'')"
    by (metis antisym of_char_eq_iff order_refl)
  then show ?thesis
    by (auto simp: in_class_def is_lower_def is_digit_def)
qed

lemma MatchString_rfc1035Regex_shape:
  "MatchString rfc1035Regex s =
     ((\<exists>c. s = [c] \<and> is_lower c)
      \<or> (\<exists>c p d. s = c # p @ [d] \<and> is_lower c \<and> length p \<le> 61
            \<and> (\<forall>x\<in>set p. is_lower x \<or> is_digit x \<or> x = CHR ''-'') \<and> (is_lower d \<or> is_digit d)))"
  unfolding MatchString_def rfc1035Regex_def
  by (cases s)
     (auto simp: rx_match_Class rx_match_Rep_Class in_class_lower in_class_alnum in_class_label)

lemma MatchString_rfc1035Regex: "MatchString rfc1035Regex s = dns_label s"
proof
  assume "MatchString rfc1035Regex s"
  then show "dns_label s"
    unfolding MatchString_rfc1035Regex_shape
    by (auto simp: dns_label_def list_all_iff)
next
  assume d: "dns_label s"
  then have ne: "s \<noteq> []" by (auto simp: dns_label_def)
  show "MatchString rfc1035Regex s"
  proof (cases "tl s")
    case Nil
    with ne d have "s = [hd s]" "is_lower (hd s)"
      by (cases s; simp add: dns_label_def)+
    then show ?thesis
      unfolding MatchString_rfc1035Regex_shape by blast
  next
    case (Cons x xs)
    with ne have s: "s = hd s # butlast (tl s) @ [last s]"
      by (cases s) (simp_all add: )
    have "length s \<le> 63"
      using d by (simp add: dns_label_def)
    then have len: "length (butlast (tl s)) \<le> 61"
      by simp
    have mid: "\<forall>x\<in>set (butlast (tl s)). is_lower x \<or> is_digit x \<or> x = CHR ''-''"
      using d ne by (auto simp: dns_label_def list_all_iff dest!: in_set_butlastD list.set_sel(2))
    have "\<exists>c p d. s = c # p @ [d] \<and> is_lower c \<and> length p \<le> 61
            \<and> (\<forall>x\<in>set p. is_lower x \<or> is_digit x \<or> x = CHR ''-'') \<and> (is_lower d \<or> is_digit d)"
    proof (intro exI conjI)
      show "s = hd s # butlast (tl s) @ [last s]" by (rule s)
      show "is_lower (hd s)" using d by (simp add: dns_label_def)
      show "length (butlast (tl s)) \<le> 61" by (rule len)
      show "\<forall>x\<in>set (butlast (tl s)). is_lower x \<or> is_digit x \<or> x = CHR ''-''" by (rule mid)
      show "is_lower (last s) \<or> is_digit (last s)" using d by (simp add: dns_label_def)
    qed
    then show ?thesis
      unfolding MatchString_rfc1035Regex_shape by blast
  qed
qed

lemma validate_each_step:
  "validate_each olm (raw # raws) m =
     (if TrimSpace raw = [] then validate_each olm raws m
      else if reserved olm (TrimSpace raw) then Inl (ErrNSReserved (TrimSpace raw))
      else if \<not> dns_label (TrimSpace raw) then Inl (ErrNameNotRFC1035Compatible (TrimSpace raw))
      else validate_each olm raws (map_put m (TrimSpace raw)))"
  by (simp add: Let_def validateRFC1035_def MatchString_rfc1035Regex reserved_def)

lemma validate_each_find:
  "validate_each olm raws m =
     (case find (\<lambda>ns. reserved olm ns \<or> \<not> dns_label ns) (filter (\<lambda>ns. ns \<noteq> []) (map TrimSpace raws)) of
        Some ns \<Rightarrow> Inl (if reserved olm ns then ErrNSReserved ns else ErrNameNotRFC1035Compatible ns)
      | None \<Rightarrow> Inr (fold (\<lambda>ns m. map_put m ns) (filter (\<lambda>ns. ns \<noteq> []) (map TrimSpace raws)) m))"
proof (induction raws arbitrary: m)
  case Nil
  then show ?case by simp
next
  case (Cons raw raws)
  show ?case
    unfolding validate_each_step
    by (simp add: Cons.IH cong del: option.case_cong_weak)
qed

lemma set_fold_map_put: "set (fold (\<lambda>ns m. map_put m ns) ts m) = set m \<union> set ts"
  by (induction ts arbitrary: m) (auto simp: map_put_def)

lemma distinct_fold_map_put: "distinct m \<Longrightarrow> distinct (fold (\<lambda>ns m. map_put m ns) ts m)"
  by (induction ts arbitrary: m) (auto simp: map_put_def)

lemma map_range_props:
  assumes "map_range range_keys"
  shows "set (range_keys m) = set m" and "distinct (range_keys m) = distinct m"
    and "length (range_keys m) = length m"
proof -
  have eq: "mset (range_keys m) = mset m"
    using assms by (simp add: map_range_def)
  show "set (range_keys m) = set m" using eq by (rule mset_eq_setD)
  show "distinct (range_keys m) = distinct m" using eq by (rule mset_eq_imp_distinct_iff)
  show "length (range_keys m) = length m" using eq by (rule mset_eq_length)
qed

lemma ValidateNamespaces_find:
  "ValidateNamespaces olm range_keys str =
     (case find (\<lambda>ns. reserved olm ns \<or> \<not> dns_label ns) (tokens str) of
        Some ns \<Rightarrow> Inl (if reserved olm ns then ErrNSReserved ns else ErrNameNotRFC1035Compatible ns)
      | None \<Rightarrow>
          (let list = range_keys (fold (\<lambda>ns m. map_put m ns) (tokens str) []) in
           if length list = 0 then Inl ErrNSEmpty else Inr list))"
  by (simp add: ValidateNamespaces_def validate_each_find tokens_def split: option.splits)

lemma find_first:
  "\<forall>x\<in>set pre. \<not> P x \<Longrightarrow> P t \<Longrightarrow> find P (pre @ t # post) = Some t"
  by (induction pre) auto

lemma Split_no_sep: "sep \<notin> set s \<Longrightarrow> Split s sep = [s]"
  by (induction s) auto

lemma map_range_single: "map_range range_keys \<Longrightarrow> range_keys [x] = [x]"
  by (metis map_range_def mset_single_iff_right mset.simps(1) mset.simps(2))

lemmas eval_tokens =
  tokens_def TrimSpace_def TrimLeft.simps TrimRight.simps first_space_def last_space_def
  space_runes_def

lemmas eval_label = dns_label_def is_lower_def is_digit_def

text \<open>
  C7. \<open>ValidateNamespaces\<close> splits its input on commas, trims each piece and drops the empty
  ones; whatever order the map is ranged over in, a list it returns holds exactly these
  tokens, each once. With no token left (the empty string, blanks only) it returns
  \<open>ErrNSEmpty\<close>; with tokens that are all valid it returns a list. For \<open>a,b,a, ,c\<close> the list
  holds exactly \<open>a\<close>, \<open>b\<close> and \<open>c\<close>, none of them being the namespace of the operator
  lifecycle manager.
\<close>

theorem validate_set_semantics:
  assumes "map_range range_keys"
  shows "(tokens str = [] \<longrightarrow> ValidateNamespaces olm range_keys str = Inl ErrNSEmpty)
       \<and> (\<forall>list. ValidateNamespaces olm range_keys str = Inr list \<longrightarrow>
             set list = set (tokens str) \<and> distinct list)
       \<and> (tokens str \<noteq> [] \<and> (\<forall>ns\<in>set (tokens str). \<not> reserved olm ns \<and> dns_label ns) \<longrightarrow>
             (\<exists>list. ValidateNamespaces olm range_keys str = Inr list))
       \<and> ValidateNamespaces olm range_keys [] = Inl ErrNSEmpty
       \<and> ValidateNamespaces olm range_keys '' ,  '' = Inl ErrNSEmpty
       \<and> (olm \<notin> {''a'', ''b'', ''c''} \<longrightarrow>
             (\<exists>list. ValidateNamespaces olm range_keys ''a,b,a, ,c'' = Inr list
                \<and> set list = {''a'', ''b'', ''c''}))"
proof -
  let ?put = "fold (\<lambda>ns m. map_put m ns)"
  note rk = map_range_props [OF assms]
  have rk_Nil: "(range_keys m = []) = (m = [])" for m
    using rk(3) [of m] by (metis length_0_conv)
  have empty: "ValidateNamespaces olm range_keys s = Inl ErrNSEmpty" if "tokens s = []" for s
    using that by (simp add: ValidateNamespaces_find rk_Nil)
  have sound: "set list = set (tokens str) \<and> distinct list"
    if "ValidateNamespaces olm range_keys str = Inr list" for list
  proof -
    from that have "list = range_keys (?put (tokens str) [])"
      by (auto simp: ValidateNamespaces_find Let_def split: option.splits if_splits)
    then show ?thesis
      by (simp add: rk set_fold_map_put distinct_fold_map_put)
  qed
  have complete: "\<exists>list. ValidateNamespaces olm range_keys s = Inr list
        \<and> set list = set (tokens s)"
    if "tokens s \<noteq> []" and "\<forall>ns\<in>set (tokens s). \<not> reserved olm ns \<and> dns_label ns" for s
  proof -
    from that(2) have "find (\<lambda>ns. reserved olm ns \<or> \<not> dns_label ns) (tokens s) = None"
      by (simp add: find_None_iff)
    moreover have "?put (tokens s) [] \<noteq> []"
      using that(1) set_fold_map_put [of "tokens s" "[]"] by (cases "tokens s") auto
    ultimately show ?thesis
      by (simp add: ValidateNamespaces_find rk rk_Nil set_fold_map_put)
  qed
  have t1: "tokens [] = []" by (simp add: eval_tokens)
  have t2: "tokens '' ,  '' = []" by (simp add: eval_tokens)
  have t3: "tokens ''a,b,a, ,c'' = [''a'', ''b'', ''a'', ''c'']" by (simp add: eval_tokens)
  have example: "\<exists>list. ValidateNamespaces olm range_keys ''a,b,a, ,c'' = Inr list
        \<and> set list = {''a'', ''b'', ''c''}" if "olm \<notin> {''a'', ''b'', ''c''}"
  proof -
    have "\<forall>ns\<in>set (tokens ''a,b,a, ,c''). \<not> reserved olm ns \<and> dns_label ns"
      using that unfolding t3
      by (auto simp: reserved_def SystemNamespace_def MonitoringNamespace_def eval_label)
    from complete [OF _ this] show ?thesis
      unfolding t3 by auto
  qed
  show ?thesis
  proof (intro conjI impI allI)
    show "ValidateNamespaces olm range_keys str = Inl ErrNSEmpty" if "tokens str = []"
      using that by (rule empty)
    show "set list = set (tokens str)" "distinct list"
      if "ValidateNamespaces olm range_keys str = Inr list" for list
      using sound [OF that] by simp_all
    show "\<exists>list. ValidateNamespaces olm range_keys str = Inr list"
      if "tokens str \<noteq> [] \<and> (\<forall>ns\<in>set (tokens str). \<not> reserved olm ns \<and> dns_label ns)"
      using complete [of str] that by blast
    show "ValidateNamespaces olm range_keys [] = Inl ErrNSEmpty"
      by (rule empty [OF t1])
    show "ValidateNamespaces olm range_keys '' ,  '' = Inl ErrNSEmpty"
      by (rule empty [OF t2])
    show "\<exists>list. ValidateNamespaces olm range_keys ''a,b,a, ,c'' = Inr list
        \<and> set list = {''a'', ''b'', ''c''}" if "olm \<notin> {''a'', ''b'', ''c''}"
      using that by (rule example)
  qed
qed

theorem validate_set_semantics_witness:
  "map_range rev \<and> tokens ''a,b,a, ,c'' = [''a'', ''b'', ''a'', ''c'']
   \<and> ValidateNamespaces ''everest-olm'' rev ''a,b,a, ,c'' = Inr [''c'', ''b'', ''a'']"
proof -
  have mr: "map_range rev" by (simp add: map_range_def)
  have t: "tokens ''a,b,a, ,c'' = [''a'', ''b'', ''a'', ''c'']" by (simp add: eval_tokens)
  have v: "ValidateNamespaces ''everest-olm'' rev ''a,b,a, ,c'' = Inr [''c'', ''b'', ''a'']"
    unfolding ValidateNamespaces_find t
    by (simp add: eval_label reserved_def SystemNamespace_def MonitoringNamespace_def map_put_def)
  from validate_set_semantics [OF mr, of "''a,b,a, ,c''" "''everest-olm''"]
  have "set [''c'', ''b'', ''a''] = set (tokens ''a,b,a, ,c'')"
    unfolding v by blast
  with mr t v show ?thesis by simp
qed

text \<open>
  C8. An input with a token equal to one of the reserved namespaces (\<open>everest-system\<close>,
  \<open>everest-monitoring\<close>, the namespace of the operator lifecycle manager) gives no list: the
  validation returns an error. The loop stops at the first token it rejects, so the error
  is \<open>ErrNSReserved\<close> naming the reserved token when every token before it is valid.
\<close>

theorem reserved_token_rejected:
  "((\<exists>ns\<in>set (tokens str). reserved olm ns) \<longrightarrow>
      (\<exists>err. ValidateNamespaces olm range_keys str = Inl err))
   \<and> (tokens str = pre @ ns # post \<and> (\<forall>x\<in>set pre. \<not> reserved olm x \<and> dns_label x)
        \<and> reserved olm ns \<longrightarrow>
      ValidateNamespaces olm range_keys str = Inl (ErrNSReserved ns))"
proof (intro conjI impI)
  assume "\<exists>ns\<in>set (tokens str). reserved olm ns"
  then have "find (\<lambda>ns. reserved olm ns \<or> \<not> dns_label ns) (tokens str) \<noteq> None"
    by (auto simp: find_None_iff)
  then show "\<exists>err. ValidateNamespaces olm range_keys str = Inl err"
    by (auto simp: ValidateNamespaces_find)
next
  assume a: "tokens str = pre @ ns # post \<and> (\<forall>x\<in>set pre. \<not> reserved olm x \<and> dns_label x)
        \<and> reserved olm ns"
  then have "find (\<lambda>ns. reserved olm ns \<or> \<not> dns_label ns) (tokens str) = Some ns"
    by (simp add: find_first)
  with a show "ValidateNamespaces olm range_keys str = Inl (ErrNSReserved ns)"
    by (simp add: ValidateNamespaces_find)
qed

theorem reserved_token_rejected_witness:
  "tokens ''db1,db1,everest-system'' = [''db1'', ''db1''] @ ''everest-system'' # []
   \<and> reserved ''everest-olm'' ''everest-system''
   \<and> ValidateNamespaces ''everest-olm'' id ''db1,db1,everest-system''
       = Inl (ErrNSReserved ''everest-system'')"
proof -
  have t: "tokens ''db1,db1,everest-system'' = [''db1'', ''db1''] @ ''everest-system'' # []"
    by (simp add: eval_tokens)
  have ok: "\<forall>x\<in>set [''db1'', ''db1'']. \<not> reserved ''everest-olm'' x \<and> dns_label x"
    by (simp add: reserved_def SystemNamespace_def MonitoringNamespace_def eval_label)
  have r: "reserved ''everest-olm'' ''everest-system''"
    by (simp add: reserved_def SystemNamespace_def)
  show ?thesis
    using reserved_token_rejected [of "''db1,db1,everest-system''" "''everest-olm''" id
        "[''db1'', ''db1'']" "''everest-system''" "[]"] t ok r
    by blast
qed

text \<open>The error is not always the one of the reserved token: after \<open>-bad\<close> the token
  \<open>everest-system\<close> is never looked at.\<close>

theorem reserved_token_counterexample:
  "reserved ''everest-olm'' ''everest-system''
   \<and> ''everest-system'' \<in> set (tokens ''-bad,everest-system'')
   \<and> ValidateNamespaces ''everest-olm'' id ''-bad,everest-system''
       = Inl (ErrNameNotRFC1035Compatible ''-bad'')
   \<and> ValidateNamespaces ''everest-olm'' id ''-bad,everest-system''
       \<noteq> Inl (ErrNSReserved ''everest-system'')"
proof -
  have t: "tokens ''-bad,everest-system'' = [''-bad'', ''everest-system'']"
    by (simp add: eval_tokens)
  have v: "ValidateNamespaces ''everest-olm'' id ''-bad,everest-system''
       = Inl (ErrNameNotRFC1035Compatible ''-bad'')"
    unfolding ValidateNamespaces_find t
    by (simp add: eval_label reserved_def SystemNamespace_def MonitoringNamespace_def)
  have r: "reserved ''everest-olm'' ''everest-system''"
    by (simp add: reserved_def SystemNamespace_def)
  have ne: "ErrNameNotRFC1035Compatible ''-bad'' \<noteq> ErrNSReserved ''everest-system''"
    by (simp add: ErrNameNotRFC1035Compatible_def ErrNSReserved_def)
  show ?thesis
    using t v r ne by simp
qed

text \<open>
  C9. A token that is not empty and not reserved passes \<open>validateRFC1035\<close> exactly when it is
  a DNS label: lowercase alphanumeric characters and \<open>-\<close> only, a letter first, an
  alphanumeric character last, 1 to 63 long. The loop then goes on with the token stored;
  otherwise the validation ends with \<open>ErrNameNotRFC1035Compatible\<close> naming the token. For an
  input of that one token the result is the list of the token, or that error.
\<close>

theorem validate_dns_label:
  assumes "ns = TrimSpace raw" and "ns \<noteq> []" and "\<not> reserved olm ns"
  shows "(validateRFC1035 ns = None) = dns_label ns
       \<and> (dns_label ns \<longrightarrow>
            validate_each olm (raw # raws) m = validate_each olm raws (map_put m ns))
       \<and> (\<not> dns_label ns \<longrightarrow>
            validateRFC1035 ns = Some (ErrNameNotRFC1035Compatible ns)
            \<and> validate_each olm (raw # raws) m = Inl (ErrNameNotRFC1035Compatible ns))
       \<and> (map_range range_keys \<and> CHR '','' \<notin> set raw \<longrightarrow>
            ValidateNamespaces olm range_keys raw
              = (if dns_label ns then Inr [ns] else Inl (ErrNameNotRFC1035Compatible ns)))"
proof (intro conjI impI)
  show "(validateRFC1035 ns = None) = dns_label ns"
    by (simp add: validateRFC1035_def MatchString_rfc1035Regex)
  show "validate_each olm (raw # raws) m = validate_each olm raws (map_put m ns)" if "dns_label ns"
    using that assms by (simp add: validate_each_step del: validate_each.simps)
  show "validateRFC1035 ns = Some (ErrNameNotRFC1035Compatible ns)" if "\<not> dns_label ns"
    using that by (simp add: validateRFC1035_def MatchString_rfc1035Regex)
  show "validate_each olm (raw # raws) m = Inl (ErrNameNotRFC1035Compatible ns)" if "\<not> dns_label ns"
    using that assms by (simp add: validate_each_step del: validate_each.simps)
  show "ValidateNamespaces olm range_keys raw
      = (if dns_label ns then Inr [ns] else Inl (ErrNameNotRFC1035Compatible ns))"
    if "map_range range_keys \<and> CHR '','' \<notin> set raw"
  proof -
    from that have t: "tokens raw = [ns]"
      using assms by (simp add: tokens_def Split_no_sep)
    from that have "range_keys [ns] = [ns]"
      by (simp add: map_range_single)
    then show ?thesis
      using assms by (simp add: ValidateNamespaces_find t map_put_def)
  qed
qed

theorem validate_dns_label_witness:
  "ValidateNamespaces ''everest-olm'' id '' good-name1 '' = Inr [''good-name1'']
   \<and> ValidateNamespaces ''everest-olm'' id ''-bad'' = Inl (ErrNameNotRFC1035Compatible ''-bad'')
   \<and> dns_label ''good-name1'' \<and> \<not> dns_label ''-bad''"
proof -
  have t1: "''good-name1'' = TrimSpace '' good-name1 ''" and t2: "''-bad'' = TrimSpace ''-bad''"
    by (simp_all add: eval_tokens)
  have r: "\<not> reserved ''everest-olm'' ''good-name1''" "\<not> reserved ''everest-olm'' ''-bad''"
    by (simp_all add: reserved_def SystemNamespace_def MonitoringNamespace_def)
  have d: "dns_label ''good-name1''" "\<not> dns_label ''-bad''"
    by (simp_all add: eval_label)
  have mr: "map_range id" by (simp add: map_range_def)
  show ?thesis
    using validate_dns_label [OF t1 _ r(1), where range_keys = id and raws = "[]" and m = "[]"]
      validate_dns_label [OF t2 _ r(2), where range_keys = id and raws = "[]" and m = "[]"]
      d mr
    by simp
qed

section \<open>The steps of a run\<close>

lemma resolved_append: "resolved (h @ h') = resolved h @ resolved h'"
  by (induction h rule: resolved.induct) simp_all

lemma provisionDBNamespace_events:
  "\<exists>evs. fst (provisionDBNamespace w cfg ver ns h) = h @ GetNamespace_call ns # evs \<and> resolved evs = []"
  by (auto simp: provisionDBNamespace_def namespaceExists_def Let_def
      split: sum.splits option.splits if_splits)

lemma RunStepsWithSpinner_Cons:
  "RunStepsWithSpinner (step # steps) h =
     (if snd (F step h) = Return None then RunStepsWithSpinner steps (fst (F step h)) else F step h)"
  by (cases "F step h") (auto split: result.splits option.splits)

lemma F_newStepInstallNamespace:
  "F (newStepInstallNamespace w cfg ver ns) = provisionDBNamespace w cfg ver ns"
  by (simp add: newStepInstallNamespace_def)

lemma steps_halt:
  "RunStepsWithSpinner (map (newStepInstallNamespace w cfg ver) l) h = (h', r) \<Longrightarrow>
   \<exists>k new hs. k \<le> length l \<and> h' = h @ new \<and> resolved new = take k l
     \<and> length hs = Suc k \<and> hs ! 0 = h \<and> hs ! k = h'
     \<and> (\<forall>i<k. fst (provisionDBNamespace w cfg ver (l ! i) (hs ! i)) = hs ! Suc i)
     \<and> (\<forall>i<k. Suc i < k \<longrightarrow> snd (provisionDBNamespace w cfg ver (l ! i) (hs ! i)) = Return None)
     \<and> (0 < k \<longrightarrow> snd (provisionDBNamespace w cfg ver (l ! (k - 1)) (hs ! (k - 1))) = r)
     \<and> (k = 0 \<longrightarrow> r = Return None)
     \<and> (k < length l \<longrightarrow> r \<noteq> Return None)"
proof (induction l arbitrary: h)
  case Nil
  then have "h' = h" "r = Return None" by simp_all
  then show ?case
    by (intro exI [of _ 0] exI [of _ "[]"] exI [of _ "[h]"]) simp
next
  case (Cons ns l)
  let ?p = "provisionDBNamespace w cfg ver ns h"
  obtain evs where evs: "fst ?p = h @ GetNamespace_call ns # evs" "resolved evs = []"
    using provisionDBNamespace_events by blast
  show ?case
  proof (cases "snd ?p = Return None")
    case True
    with Cons.prems have "RunStepsWithSpinner (map (newStepInstallNamespace w cfg ver) l) (fst ?p) = (h', r)"
      by (simp add: RunStepsWithSpinner_Cons F_newStepInstallNamespace del: RunStepsWithSpinner.simps)
    from Cons.IH [OF this] obtain k new hs where k: "k \<le> length l" "length hs = Suc k"
        "hs ! 0 = fst ?p" "hs ! k = h'"
        "\<forall>i<k. fst (provisionDBNamespace w cfg ver (l ! i) (hs ! i)) = hs ! Suc i"
        "\<forall>i<k. Suc i < k \<longrightarrow> snd (provisionDBNamespace w cfg ver (l ! i) (hs ! i)) = Return None"
        "0 < k \<longrightarrow> snd (provisionDBNamespace w cfg ver (l ! (k - 1)) (hs ! (k - 1))) = r"
        "k = 0 \<longrightarrow> r = Return None"
        "k < length l \<longrightarrow> r \<noteq> Return None"
      and new: "h' = fst ?p @ new" "resolved new = take k l"
      by blast
    have a: "Suc k \<le> length (ns # l)" "length (h # hs) = Suc (Suc k)" "(h # hs) ! 0 = h"
        "(h # hs) ! Suc k = h'"
      using k(1,2,4) by simp_all
    have n: "h' = h @ GetNamespace_call ns # evs @ new"
        "resolved (GetNamespace_call ns # evs @ new) = take (Suc k) (ns # l)"
      using new evs by (simp_all add: resolved_append)
    have b: "fst (provisionDBNamespace w cfg ver ((ns # l) ! i) ((h # hs) ! i)) = (h # hs) ! Suc i"
      if "i < Suc k" for i
      using that k(3,5) by (cases i) simp_all
    have c: "snd (provisionDBNamespace w cfg ver ((ns # l) ! i) ((h # hs) ! i)) = Return None"
      if "i < Suc k" "Suc i < Suc k" for i
      using that k(6) True by (cases i) simp_all
    have d: "snd (provisionDBNamespace w cfg ver ((ns # l) ! (Suc k - 1)) ((h # hs) ! (Suc k - 1))) = r"
      using k(7,8) True by (cases k) simp_all
    have e: "Suc k < length (ns # l) \<longrightarrow> r \<noteq> Return None"
      using k(9) by simp
    show ?thesis
      using a n b c d e
      by (intro exI [of _ "Suc k"] exI [of _ "GetNamespace_call ns # evs @ new"] exI [of _ "h # hs"])
         simp
  next
    case False
    with Cons.prems have res: "?p = (h', r)"
      by (simp add: RunStepsWithSpinner_Cons F_newStepInstallNamespace del: RunStepsWithSpinner.simps)
    with False have "r \<noteq> Return None" by simp
    moreover from res evs have "h' = h @ GetNamespace_call ns # evs" by simp
    ultimately show ?thesis
      using res evs(2)
      by (intro exI [of _ "Suc 0"] exI [of _ "GetNamespace_call ns # evs"] exI [of _ "[h, h']"])
         simp
  qed
qed

text \<open>
  C4. For a configuration whose namespace list comes from the validation, \<open>Run\<close> makes one
  step for each namespace of the list and runs the steps one after the other in the order
  of the list, each from the calls the one before it has left. The namespaces whose step
  has started are a prefix of the list, and every step of that prefix but the last has
  returned nil. When the run returns nil the prefix is the whole list and every step has
  returned nil. When it does not, the last step of the prefix is the one that failed, its
  result is the result of the run, and no later step has started. The list holds every
  token of the input once, in the order in which the map of the validation is ranged
  over, which need not be the order of the input.
\<close>

theorem steps_follow_validated_list:
  assumes range: "map_range range_keys"
    and input: "(if wizard \<and> \<not> SkipWizard cfg0 then AskOne w (Namespaces cfg0)
                 else Inr (Namespaces cfg0)) = Inr str"
    and populated: "populateNamespaces w olm range_keys wizard cfg0 = Inr cfg"
    and helm: "CheckHelmInstallation w = Inr ver"
    and chart: "IsDev w ver \<and> ChartDir cfg = [] \<longrightarrow> SetupEverestDevChart w = Inr dir"
    and cfg': "cfg' = (if IsDev w ver \<and> ChartDir cfg = [] then cfg\<lparr>ChartDir := dir\<rparr> else cfg)"
    and run: "Run w cfg h = (h', r)"
  shows "distinct (NamespaceList cfg) \<and> set (NamespaceList cfg) = set (tokens str)
       \<and> (\<exists>k new hs. k \<le> length (NamespaceList cfg) \<and> h' = h @ new
             \<and> resolved new = take k (NamespaceList cfg)
             \<and> length hs = Suc k \<and> hs ! 0 = h \<and> hs ! k = h'
             \<and> (\<forall>i<k. fst (provisionDBNamespace w cfg' ver (NamespaceList cfg ! i) (hs ! i))
                       = hs ! Suc i)
             \<and> (\<forall>i<k. Suc i < k \<longrightarrow>
                   snd (provisionDBNamespace w cfg' ver (NamespaceList cfg ! i) (hs ! i))
                     = Return None)
             \<and> (r = Return None \<longrightarrow> k = length (NamespaceList cfg)
                  \<and> (\<forall>i<k. snd (provisionDBNamespace w cfg' ver (NamespaceList cfg ! i) (hs ! i))
                             = Return None))
             \<and> (r \<noteq> Return None \<longrightarrow> 0 < k
                  \<and> provisionDBNamespace w cfg' ver (NamespaceList cfg ! (k - 1)) (hs ! (k - 1))
                        = (h', r)))"
proof -
  let ?L = "NamespaceList cfg"
  from input populated have v: "ValidateNamespaces olm range_keys str = Inr ?L"
    by (auto simp: populateNamespaces_def split: sum.splits)
  have list: "distinct ?L \<and> set ?L = set (tokens str)"
  proof -
    from v have "?L = range_keys (fold (\<lambda>ns m. map_put m ns) (tokens str) [])"
      by (auto simp: ValidateNamespaces_find Let_def split: option.splits if_splits)
    then show ?thesis
      by (simp add: map_range_props [OF range] set_fold_map_put distinct_fold_map_put)
  qed
  have "Run w cfg h = RunStepsWithSpinner (map (newStepInstallNamespace w cfg' ver) ?L) h"
    using helm chart cfg' by (auto simp: Run_def)
  with run have "RunStepsWithSpinner (map (newStepInstallNamespace w cfg' ver) ?L) h = (h', r)"
    by simp
  from steps_halt [OF this] obtain k new hs where k: "k \<le> length ?L" "h' = h @ new"
      "resolved new = take k ?L" "length hs = Suc k" "hs ! 0 = h" "hs ! k = h'"
      "\<forall>i<k. fst (provisionDBNamespace w cfg' ver (?L ! i) (hs ! i)) = hs ! Suc i"
      "\<forall>i<k. Suc i < k \<longrightarrow> snd (provisionDBNamespace w cfg' ver (?L ! i) (hs ! i)) = Return None"
      "0 < k \<longrightarrow> snd (provisionDBNamespace w cfg' ver (?L ! (k - 1)) (hs ! (k - 1))) = r"
      "k = 0 \<longrightarrow> r = Return None"
      "k < length ?L \<longrightarrow> r \<noteq> Return None"
    by blast
  have ok: "k = length ?L \<and> (\<forall>i<k. snd (provisionDBNamespace w cfg' ver (?L ! i) (hs ! i)) = Return None)"
    if "r = Return None"
  proof
    show "k = length ?L" using that k(1,11) by auto
    show "\<forall>i<k. snd (provisionDBNamespace w cfg' ver (?L ! i) (hs ! i)) = Return None"
    proof (intro allI impI)
      fix i assume "i < k"
      show "snd (provisionDBNamespace w cfg' ver (?L ! i) (hs ! i)) = Return None"
      proof (cases "Suc i < k")
        case True
        with \<open>i < k\<close> k(8) show ?thesis by blast
      next
        case False
        with \<open>i < k\<close> have "i = k - 1" "0 < k" by auto
        with k(9) that show ?thesis by simp
      qed
    qed
  qed
  have failed: "0 < k \<and> provisionDBNamespace w cfg' ver (?L ! (k - 1)) (hs ! (k - 1)) = (h', r)"
    if "r \<noteq> Return None"
  proof
    show pos: "0 < k" using that k(10) by auto
    then have "fst (provisionDBNamespace w cfg' ver (?L ! (k - 1)) (hs ! (k - 1))) = hs ! Suc (k - 1)"
      using k(7) by (metis diff_less zero_less_one)
    with pos k(6,9) show "provisionDBNamespace w cfg' ver (?L ! (k - 1)) (hs ! (k - 1)) = (h', r)"
      by (simp add: prod_eq_iff)
  qed
  show ?thesis
    using list k(1-8) ok failed by blast
qed

theorem steps_follow_validated_list_witness:
  "map_range id
   \<and> populateNamespaces example_world ''everest-olm'' id False example_config = Inr example_config
   \<and> Run example_world example_config []
       = ([GetNamespace_call ''db1'',
           Init_call (release_installer ''db1'' (getValues example_config) False) ''kubeconfig''
             \<lparr>Directory = [], URL = ''https://example.org/charts'',
              Name = ''everest-db-namespace'', Version = ''1.3.0''\<rparr>,
           Install_call (release_installer ''db1'' (getValues example_config) False),
           GetNamespace_call ''db2''],
          Return (Some (New ''namespace (db2) already exists'')))"
proof -
  have mr: "map_range id" by (simp add: map_range_def)
  have t: "tokens ''db1,db2,db3'' = [''db1'', ''db2'', ''db3'']" by (simp add: eval_tokens)
  have v: "ValidateNamespaces ''everest-olm'' id ''db1,db2,db3'' = Inr [''db1'', ''db2'', ''db3'']"
    unfolding ValidateNamespaces_find t
    by (simp add: eval_label reserved_def SystemNamespace_def MonitoringNamespace_def map_put_def)
  have p: "populateNamespaces example_world ''everest-olm'' id False example_config = Inr example_config"
    by (simp add: populateNamespaces_def example_config_def v)
  have i: "(if False \<and> \<not> SkipWizard example_config then AskOne example_world (Namespaces example_config)
            else Inr (Namespaces example_config)) = Inr ''db1,db2,db3''"
    by (simp add: example_config_def)
  have r: "Run example_world example_config []
       = ([GetNamespace_call ''db1'',
           Init_call (release_installer ''db1'' (getValues example_config) False) ''kubeconfig''
             \<lparr>Directory = [], URL = ''https://example.org/charts'',
              Name = ''everest-db-namespace'', Version = ''1.3.0''\<rparr>,
           Install_call (release_installer ''db1'' (getValues example_config) False),
           GetNamespace_call ''db2''],
          Return (Some (New ''namespace (db2) already exists'')))"
    by (simp add: Run_def example_world_def example_config_def newStepInstallNamespace_def
        provisionDBNamespace_def namespaceExists_def isManagedByEverest_def release_installer_def
        getValues_def Let_def)
  have h: "CheckHelmInstallation example_world = Inr ''1.3.0''"
    by (simp add: example_world_def)
  have c: "IsDev example_world ''1.3.0'' \<and> ChartDir example_config = []
      \<longrightarrow> SetupEverestDevChart example_world = Inr []"
    by (simp add: example_world_def)
  have c': "example_config = (if IsDev example_world ''1.3.0'' \<and> ChartDir example_config = []
      then example_config\<lparr>ChartDir := []\<rparr> else example_config)"
    by (simp add: example_world_def)
  show ?thesis
    using steps_follow_validated_list [OF mr i p h c c' r] mr p r by simp
qed

text \<open>With a map ranged over from its last key to its first, the input \<open>db1,db3\<close> is
  provisioned as \<open>db3\<close>, then \<open>db1\<close>.\<close>

theorem steps_order_counterexample:
  "map_range rev
   \<and> populateNamespaces example_world ''everest-olm'' rev False
        (example_config\<lparr>Namespaces := ''db1,db3'', TakeOwnership := True\<rparr>)
       = Inr (example_config\<lparr>Namespaces := ''db1,db3'', TakeOwnership := True,
                             NamespaceList := [''db3'', ''db1'']\<rparr>)
   \<and> snd (Run example_world
        (example_config\<lparr>Namespaces := ''db1,db3'', TakeOwnership := True,
                        NamespaceList := [''db3'', ''db1'']\<rparr>) []) = Return None
   \<and> resolved (fst (Run example_world
        (example_config\<lparr>Namespaces := ''db1,db3'', TakeOwnership := True,
                        NamespaceList := [''db3'', ''db1'']\<rparr>) [])) = [''db3'', ''db1'']
   \<and> fold (\<lambda>ns m. map_put m ns) (tokens ''db1,db3'') [] = [''db1'', ''db3'']
   \<and> resolved (fst (Run example_world
        (example_config\<lparr>Namespaces := ''db1,db3'', TakeOwnership := True,
                        NamespaceList := [''db3'', ''db1'']\<rparr>) []))
       \<noteq> fold (\<lambda>ns m. map_put m ns) (tokens ''db1,db3'') []"
proof -
  have mr: "map_range rev" by (simp add: map_range_def)
  have t: "tokens ''db1,db3'' = [''db1'', ''db3'']" by (simp add: eval_tokens)
  have v: "ValidateNamespaces ''everest-olm'' rev ''db1,db3'' = Inr [''db3'', ''db1'']"
    unfolding ValidateNamespaces_find t
    by (simp add: eval_label reserved_def SystemNamespace_def MonitoringNamespace_def map_put_def)
  have p: "populateNamespaces example_world ''everest-olm'' rev False
        (example_config\<lparr>Namespaces := ''db1,db3'', TakeOwnership := True\<rparr>)
       = Inr (example_config\<lparr>Namespaces := ''db1,db3'', TakeOwnership := True,
                             NamespaceList := [''db3'', ''db1'']\<rparr>)"
    by (simp add: populateNamespaces_def example_config_def v)
  have r: "Run example_world
        (example_config\<lparr>Namespaces := ''db1,db3'', TakeOwnership := True,
                        NamespaceList := [''db3'', ''db1'']\<rparr>) []
      = ([GetNamespace_call ''db3'',
          Init_call (release_installer ''db3'' (getValues example_config) True) ''kubeconfig''
             \<lparr>Directory = [], URL = ''https://example.org/charts'',
              Name = ''everest-db-namespace'', Version = ''1.3.0''\<rparr>,
          Install_call (release_installer ''db3'' (getValues example_config) True),
          GetNamespace_call ''db1'',
          Init_call (release_installer ''db1'' (getValues example_config) False) ''kubeconfig''
             \<lparr>Directory = [], URL = ''https://example.org/charts'',
              Name = ''everest-db-namespace'', Version = ''1.3.0''\<rparr>,
          Install_call (release_installer ''db1'' (getValues example_config) False)],
         Return None)"
    by (simp add: Run_def example_world_def example_config_def newStepInstallNamespace_def
        provisionDBNamespace_def namespaceExists_def isManagedByEverest_def release_installer_def
        getValues_def KubernetesManagedByLabel_def Let_def)
  have f: "fold (\<lambda>ns m. map_put m ns) (tokens ''db1,db3'') [] = [''db1'', ''db3'']"
    unfolding t by (simp add: map_put_def)
  show ?thesis
    unfolding r f using mr p by simp
qed

end
